theory Spec2Isabelle
  imports Main "HOL-Library.Word"
begin

section \<open>Bytes, runes and the UTF-8 routines the homework calls\<close>

text \<open>
  A Go \<^verbatim>\<open>byte\<close> is an 8-bit word, a \<^verbatim>\<open>rune\<close> an \<^verbatim>\<open>int32\<close> (here an integer; the
  conversion \<^verbatim>\<open>uint32(r)\<close> is written as \<open>r mod 2 ^ 32\<close>). The functions of this section
  are those of Go's packages \<^verbatim>\<open>unicode/utf8\<close>, \<^verbatim>\<open>unicode\<close> and \<^verbatim>\<open>bytes\<close> that
  \<^verbatim>\<open>lesson3/homework/main.go\<close> calls; they follow the library's code branch by branch,
  with masks and shifts written as \<open>mod\<close>, \<open>div\<close> and multiplication.
\<close>

type_synonym byte = "8 word"
type_synonym rune = int

definition RuneError :: rune where
  "RuneError = 0xFFFD"

definition RuneSelf :: nat where
  "RuneSelf = 0x80"

definition UTFMax :: nat where
  "UTFMax = 4"

text \<open>The table \<^verbatim>\<open>first\<close> of \<^verbatim>\<open>unicode/utf8\<close>: \<^verbatim>\<open>as = 0xF0\<close>, \<^verbatim>\<open>xx = 0xF1\<close>,
  \<^verbatim>\<open>s1 = 0x02\<close>, \<^verbatim>\<open>s2 = 0x13\<close>, \<^verbatim>\<open>s3 = 0x03\<close>, \<^verbatim>\<open>s4 = 0x23\<close>, \<^verbatim>\<open>s5 = 0x34\<close>,
  \<^verbatim>\<open>s6 = 0x04\<close>, \<^verbatim>\<open>s7 = 0x44\<close>.\<close>

definition first :: "byte \<Rightarrow> nat" where
  "first p0 = (let b = unat p0 in
     if b < 0x80 then 0xF0
     else if b < 0xC2 then 0xF1
     else if b < 0xE0 then 0x02
     else if b = 0xE0 then 0x13
     else if b < 0xED then 0x03
     else if b = 0xED then 0x23
     else if b < 0xF0 then 0x03
     else if b = 0xF0 then 0x34
     else if b < 0xF4 then 0x04
     else if b = 0xF4 then 0x44
     else 0xF1)"

definition acceptRanges :: "nat \<Rightarrow> nat \<times> nat" where
  "acceptRanges i =
    (if i = 0 then (0x80, 0xBF)
     else if i = 1 then (0xA0, 0xBF)
     else if i = 2 then (0x80, 0x9F)
     else if i = 3 then (0x90, 0xBF)
     else if i = 4 then (0x80, 0x8F)
     else (0, 0))"

definition DecodeRune :: "byte list \<Rightarrow> rune \<times> nat" where
  "DecodeRune p =
    (let n = length p in
     if n < 1 then (RuneError, 0)
     else
       let p0 = unat (p ! 0); x = first (p ! 0) in
       if x \<ge> 0xF0 then ((if x mod 2 = 1 then RuneError else int p0), 1)
       else
         let sz = x mod 8; lo = fst (acceptRanges (x div 16)); hi = snd (acceptRanges (x div 16)) in
         if n < sz then (RuneError, 1)
         else
           let b1 = unat (p ! 1) in
           if b1 < lo \<or> hi < b1 then (RuneError, 1)
           else if sz \<le> 2 then (int ((p0 mod 32) * 64 + b1 mod 64), 2)
           else
             let b2 = unat (p ! 2) in
             if b2 < 0x80 \<or> 0xBF < b2 then (RuneError, 1)
             else if sz \<le> 3 then (int ((p0 mod 16) * 4096 + (b1 mod 64) * 64 + b2 mod 64), 3)
             else
               let b3 = unat (p ! 3) in
               if b3 < 0x80 \<or> 0xBF < b3 then (RuneError, 1)
               else (int ((p0 mod 8) * 262144 + (b1 mod 64) * 4096 + (b2 mod 64) * 64 + b3 mod 64), 4))"

definition RuneStart :: "byte \<Rightarrow> bool" where
  "RuneStart b = ((unat b div 64) \<noteq> 2)"

text \<open>The backwards scan of \<^verbatim>\<open>DecodeLastRune\<close>: from \<open>start\<close> down to \<open>lim\<close>, stopping at
  the first byte that can start a rune; the result is an integer, as the scan may leave
  the slice at \<open>-1\<close>.\<close>

fun scan_back :: "byte list \<Rightarrow> nat \<Rightarrow> nat \<Rightarrow> int" where
  "scan_back p lim 0 = (if lim = 0 \<and> \<not> RuneStart (p ! 0) then -1 else 0)"
| "scan_back p lim (Suc k) =
     (if Suc k < lim then int (Suc k)
      else if RuneStart (p ! Suc k) then int (Suc k)
      else scan_back p lim k)"

definition DecodeLastRune :: "byte list \<Rightarrow> rune \<times> nat" where
  "DecodeLastRune p =
    (let end = length p in
     if end = 0 then (RuneError, 0)
     else
       let start = end - 1; r = uint (p ! start) in
       if r < int RuneSelf then (r, 1)
       else
         let lim = end - UTFMax;
             start1 = (if start = 0 then -1 else scan_back p lim (start - 1));
             start2 = (if start1 < 0 then 0 else nat start1);
             rs = DecodeRune (drop start2 p)
         in if start2 + snd rs \<noteq> end then (RuneError, 1) else rs)"

definition AppendRune :: "byte list \<Rightarrow> rune \<Rightarrow> byte list" where
  "AppendRune p r =
    (let i = nat (r mod 2 ^ 32) in
     if i \<le> 0x7F then p @ [of_nat i]
     else if i \<le> 0x7FF then p @ [of_nat (0xC0 + i div 64), of_nat (0x80 + i mod 64)]
     else if i > 0x10FFFF \<or> (0xD800 \<le> i \<and> i \<le> 0xDFFF) then p @ [0xEF, 0xBF, 0xBD]
     else if i \<le> 0xFFFF then
       p @ [of_nat (0xE0 + i div 4096), of_nat (0x80 + (i div 64) mod 64), of_nat (0x80 + i mod 64)]
     else
       p @ [of_nat (0xF0 + i div 262144), of_nat (0x80 + (i div 4096) mod 64),
            of_nat (0x80 + (i div 64) mod 64), of_nat (0x80 + i mod 64)])"

text \<open>\<^verbatim>\<open>unicode.IsSpace\<close>: the Latin-1 switch, then the \<^verbatim>\<open>White_Space\<close> ranges above
  Latin-1.\<close>

definition IsSpace :: "rune \<Rightarrow> bool" where
  "IsSpace r =
    (let u = r mod 2 ^ 32 in
     if u \<le> 0xFF then
       (r = 9 \<or> r = 10 \<or> r = 11 \<or> r = 12 \<or> r = 13 \<or> r = 32 \<or> r = 0x85 \<or> r = 0xA0)
     else
       (u = 0x1680 \<or> (0x2000 \<le> u \<and> u \<le> 0x200A) \<or> u = 0x2028 \<or> u = 0x2029
        \<or> u = 0x202F \<or> u = 0x205F \<or> u = 0x3000))"


lemma scan_back_le: "scan_back p lim k \<le> int k"
  by (induction k) auto

lemma DecodeLastRune_size_pos: "p \<noteq> [] \<Longrightarrow> 0 < snd (DecodeLastRune p)"
proof -
  assume ne: "p \<noteq> []"
  define start1 where "start1 = (if length p - 1 = 0 then -1 else scan_back p (length p - UTFMax) (length p - 1 - 1))"
  define start2 where "start2 = (if start1 < 0 then 0 else nat start1)"
  have "start1 < int (length p)"
    using scan_back_le [of p "length p - UTFMax" "length p - 1 - 1"] ne
    by (auto simp: start1_def)
  then have lt: "start2 < length p"
    using ne by (auto simp: start2_def)
  show ?thesis
    using ne lt
    by (auto simp: DecodeLastRune_def Let_def start1_def start2_def)
qed

text \<open>\<^verbatim>\<open>bytes.lastIndexFunc\<close>: the loop variable \<open>i\<close> of the source is the length of the
  first argument, the prefix \<^verbatim>\<open>s[0:i]\<close> that the loop still has to look at.\<close>

function lastIndexFunc :: "byte list \<Rightarrow> (rune \<Rightarrow> bool) \<Rightarrow> bool \<Rightarrow> int" where
  "lastIndexFunc s f truth =
    (if length s > 0 then
       let rs = (if unat (s ! (length s - 1)) \<ge> RuneSelf then DecodeLastRune s
                 else (uint (s ! (length s - 1)), 1));
           i' = length s - snd rs
       in if f (fst rs) = truth then int i' else lastIndexFunc (take i' s) f truth
     else -1)"
  by pat_completeness auto
termination
proof (relation "measure (\<lambda>(s, f, truth). length s)")
  show "wf (measure (\<lambda>(s :: byte list, f :: rune \<Rightarrow> bool, truth :: bool). length s))"
    by simp
next
  fix s :: "byte list" and f :: "rune \<Rightarrow> bool" and truth :: bool
    and x :: "rune \<times> nat" and xa :: nat
  assume s: "0 < length s"
    and x: "x = (if RuneSelf \<le> unat (s ! (length s - 1)) then DecodeLastRune s
                 else (uint (s ! (length s - 1)), 1))"
    and xa: "xa = length s - snd x"
  have "0 < snd x"
    using x s DecodeLastRune_size_pos [of s] by (auto split: if_splits)
  then show "((take xa s, f, truth), (s, f, truth)) \<in> measure (\<lambda>(s, f, truth). length s)"
    using s xa by simp
qed

declare lastIndexFunc.simps [simp del]

definition TrimRightFunc :: "byte list \<Rightarrow> (rune \<Rightarrow> bool) \<Rightarrow> byte list" where
  "TrimRightFunc s f =
    (let i = lastIndexFunc s f False in
     if i \<ge> 0 \<and> unat (s ! nat i) \<ge> RuneSelf
     then take (nat i + snd (DecodeRune (drop (nat i) s))) s
     else take (nat (i + 1)) s)"


lemma DecodeRune_size_pos: "p \<noteq> [] \<Longrightarrow> 0 < snd (DecodeRune p)"
  by (cases p) (simp_all add: DecodeRune_def Let_def)

section \<open>The stream transformer of lesson 3\<close>

subsection \<open>Options and the \<^verbatim>\<open>-conv\<close> flag\<close>

text \<open>\<^verbatim>\<open>Offset\<close> is an \<^verbatim>\<open>int64\<close>, \<^verbatim>\<open>Limit\<close> and \<^verbatim>\<open>BlockSize\<close> are \<^verbatim>\<open>uint\<close>: natural numbers
  below \<open>2 ^ 64\<close>, whose sums and differences wrap around.\<close>

record Options =
  From :: string
  To :: string
  Offset :: int
  Limit :: nat
  BlockSize :: nat
  Conv :: string

definition uint_add :: "nat \<Rightarrow> nat \<Rightarrow> nat" where
  "uint_add a b = (a + b) mod 2 ^ 64"

definition uint_sub :: "nat \<Rightarrow> nat \<Rightarrow> nat" where
  "uint_sub a b = (a + (2 ^ 64 - b mod 2 ^ 64)) mod 2 ^ 64"

datatype ConvOption = UpperCase | LowerCase | TrimSpaces

definition ConvMapper :: "string \<Rightarrow> ConvOption option" where
  "ConvMapper s =
    (if s = ''upper_case'' then Some UpperCase
     else if s = ''lower_case'' then Some LowerCase
     else if s = ''trim_spaces'' then Some TrimSpaces
     else None)"

datatype error =
    UnknownConv string
  | BothCases
  | OffsetFailed
  | ReadFailed
  | WriteFailed

text \<open>\<^verbatim>\<open>strings.Split(s, sep)\<close> for a separator of one character.\<close>

fun Split :: "string \<Rightarrow> char \<Rightarrow> string list" where
  "Split [] sep = [[]]"
| "Split (c # cs) sep =
    (if c = sep then [] # Split cs sep
     else (case Split cs sep of [] \<Rightarrow> [[c]] | w # ws \<Rightarrow> (c # w) # ws))"

fun ParseConv_range :: "string list \<Rightarrow> bool \<Rightarrow> ConvOption list \<Rightarrow> error + ConvOption list" where
  "ParseConv_range [] gotCase result = Inr result"
| "ParseConv_range (s # ss) gotCase result =
    (case ConvMapper s of
       None \<Rightarrow> Inl (UnknownConv s)
     | Some parsed \<Rightarrow>
         if parsed = LowerCase \<or> parsed = UpperCase then
           (if gotCase then Inl BothCases
            else ParseConv_range ss True (result @ [parsed]))
         else ParseConv_range ss gotCase (result @ [parsed]))"

definition ParseConv :: "Options \<Rightarrow> error + ConvOption list" where
  "ParseConv opts =
    (if Conv opts = [] then Inr []
     else ParseConv_range (Split (Conv opts) CHR '','') False [])"

subsection \<open>Reader and writer\<close>

text \<open>
  The reader and the writer of \<^verbatim>\<open>process\<close> are files. A source holds the bytes not read
  yet; \<open>broken\<close> says that the device fails once they are used up, where a sound file
  reports \<^verbatim>\<open>io.EOF\<close>. \<^verbatim>\<open>Read\<close> fills the buffer as far as the file goes, returns no
  error together with bytes, and returns \<^verbatim>\<open>0, nil\<close> for a buffer of length 0, as
  \<^verbatim>\<open>os.File\<close> does. A sink holds the bytes written; \<open>room\<close> is the space left on the
  device, \<open>None\<close> when it has no bound.
\<close>

datatype io_err = EOF | IOFailure

record source =
  pending :: "byte list"
  broken :: bool

record sink =
  written :: "byte list"
  room :: "nat option"

definition Read :: "nat \<Rightarrow> source \<Rightarrow> byte list \<times> io_err option \<times> source" where
  "Read n s =
    (if n = 0 then ([], None, s)
     else if pending s = [] then ([], Some (if broken s then IOFailure else EOF), s)
     else (take n (pending s), None, s\<lparr>pending := drop n (pending s)\<rparr>))"

definition Write :: "byte list \<Rightarrow> sink \<Rightarrow> io_err option \<times> sink" where
  "Write p w =
    (case room w of
       None \<Rightarrow> (None, w\<lparr>written := written w @ p\<rparr>)
     | Some k \<Rightarrow>
         if length p \<le> k then (None, w\<lparr>written := written w @ p, room := Some (k - length p)\<rparr>)
         else (Some IOFailure, w\<lparr>written := written w @ take k p, room := Some 0\<rparr>))"

text \<open>\<^verbatim>\<open>io.CopyN(io.Discard, reader, n)\<close>: for \<open>n \<le> 0\<close> nothing is read and no error is
  returned; otherwise \<open>n\<close> bytes are read and dropped, and a source that ends before is an
  error.\<close>

definition CopyN_Discard :: "source \<Rightarrow> int \<Rightarrow> io_err option \<times> source" where
  "CopyN_Discard s n =
    (if n \<le> 0 then (None, s)
     else if nat n \<le> length (pending s) then (None, s\<lparr>pending := drop (nat n) (pending s)\<rparr>)
     else (Some (if broken s then IOFailure else EOF), s\<lparr>pending := []\<rparr>))"

subsection \<open>The conversions of one rune\<close>

text \<open>
  \<^verbatim>\<open>unicode.To\<close> looks the rune up in the table \<^verbatim>\<open>unicode.CaseRanges\<close>, which is not part
  of the repository: the case mapping is the parameter \<open>uTo\<close> of everything below.
  The loop over \<^verbatim>\<open>parsedConv\<close> returns \<open>None\<close> for the rune where the source leaves it
  with \<^verbatim>\<open>continue SymbolIterate\<close>, together with the new value of \<^verbatim>\<open>isSpaceEnded\<close>.
\<close>

datatype unicode_case = unicode_UpperCase | unicode_LowerCase

type_synonym case_mapping = "unicode_case \<Rightarrow> rune \<Rightarrow> rune"

fun conv_range :: "case_mapping \<Rightarrow> ConvOption list \<Rightarrow> rune \<Rightarrow> bool \<Rightarrow> rune option \<times> bool" where
  "conv_range uTo [] r isSpaceEnded = (Some r, isSpaceEnded)"
| "conv_range uTo (UpperCase # convs) r isSpaceEnded =
     conv_range uTo convs (uTo unicode_UpperCase r) isSpaceEnded"
| "conv_range uTo (LowerCase # convs) r isSpaceEnded =
     conv_range uTo convs (uTo unicode_LowerCase r) isSpaceEnded"
| "conv_range uTo (TrimSpaces # convs) r isSpaceEnded =
     (if IsSpace r then
        (if \<not> isSpaceEnded then (None, isSpaceEnded)
         else conv_range uTo convs r isSpaceEnded)
      else conv_range uTo convs r True)"

subsection \<open>The loop over the runes of one block\<close>

text \<open>The loop \<^verbatim>\<open>SymbolIterate\<close>: its state is \<^verbatim>\<open>buffer\<close>, \<^verbatim>\<open>writerBuf\<close> and
  \<^verbatim>\<open>isSpaceEnded\<close>, and it returns all three.\<close>

function SymbolIterate ::
  "case_mapping \<Rightarrow> ConvOption list \<Rightarrow> nat \<Rightarrow> byte list \<Rightarrow> byte list \<Rightarrow> bool
    \<Rightarrow> byte list \<times> byte list \<times> bool" where
  "SymbolIterate uTo parsedConv blockSize buffer writerBuf isSpaceEnded =
    (if length buffer > 0 then
       let r = fst (DecodeRune buffer); size = snd (DecodeRune buffer) in
       if length buffer < 3 \<and> (size \<le> 0 \<or> r = RuneError) then (buffer, writerBuf, isSpaceEnded)
       else
         (case conv_range uTo parsedConv r isSpaceEnded of
            (None, ended) \<Rightarrow>
              SymbolIterate uTo parsedConv blockSize (drop size buffer) writerBuf ended
          | (Some r', ended) \<Rightarrow>
              let newWriteBuf = (if r' = RuneError then take size buffer
                                 else AppendRune writerBuf r')
              in if length newWriteBuf > blockSize then (buffer, writerBuf, ended)
                 else SymbolIterate uTo parsedConv blockSize (drop size buffer) newWriteBuf ended)
     else (buffer, writerBuf, isSpaceEnded))"
  by pat_completeness auto
termination
  by (relation "measure (\<lambda>(uTo, parsedConv, blockSize, buffer, writerBuf, isSpaceEnded). length buffer)")
     (auto dest: DecodeRune_size_pos)

declare SymbolIterate.simps [simp del]

subsection \<open>The main cycle\<close>

text \<open>
  The variables of the main cycle are the state of the loop. One pass through the body of
  the \<^verbatim>\<open>for\<close> either leaves \<^verbatim>\<open>process\<close> (with an error or with \<^verbatim>\<open>nil\<close>) or goes on with a
  new state. The cycle has no bound: \<open>process_loop\<close> is \<open>None\<close> where it runs forever.
\<close>

record loop_state =
  reader :: source
  writer :: sink
  prevBuffer :: "byte list"
  isSpaceEnded :: bool
  totalReadBytes :: nat

type_synonym outcome = "error option \<times> source \<times> sink"

definition loop_body ::
  "case_mapping \<Rightarrow> ConvOption list \<Rightarrow> Options \<Rightarrow> loop_state \<Rightarrow> outcome + loop_state" where
  "loop_body uTo parsedConv opts st =
    (let maxReadLength =
           (if Limit opts > 0 \<and> uint_add (totalReadBytes st) (BlockSize opts) > Limit opts
            then uint_sub (Limit opts) (totalReadBytes st)
            else BlockSize opts);
         rd = Read maxReadLength (reader st);
         data = fst rd; err = fst (snd rd); reader' = snd (snd rd)
     in
       if err = Some IOFailure then Inl (Some ReadFailed, reader', writer st)
       else
         let endFile = (err = Some EOF);
             buffer = prevBuffer st @ data;
             it = SymbolIterate uTo parsedConv (BlockSize opts) buffer [] (isSpaceEnded st);
             prevBuffer' = fst it; ended = snd (snd it);
             writerBuf = (if ended then TrimRightFunc (fst (snd it)) IsSpace else fst (snd it));
             wr = Write writerBuf (writer st)
         in
           if fst wr \<noteq> None then Inl (Some WriteFailed, reader', snd wr)
           else
             let total = uint_add (totalReadBytes st) (length data) in
             if endFile \<or> (Limit opts > 0 \<and> total \<ge> Limit opts) then
               (let wr2 = Write prevBuffer' (snd wr) in
                if fst wr2 \<noteq> None then Inl (Some WriteFailed, reader', snd wr2)
                else Inl (None, reader', snd wr2))
             else
               Inr \<lparr>reader = reader', writer = snd wr, prevBuffer = prevBuffer',
                    isSpaceEnded = ended, totalReadBytes = total\<rparr>)"

partial_function (option) process_loop ::
  "case_mapping \<Rightarrow> ConvOption list \<Rightarrow> Options \<Rightarrow> loop_state \<Rightarrow> outcome option" where
  "process_loop uTo parsedConv opts st =
    (case loop_body uTo parsedConv opts st of
       Inl res \<Rightarrow> Some res
     | Inr st' \<Rightarrow> process_loop uTo parsedConv opts st')"

text \<open>\<^verbatim>\<open>process\<close>, from the point where the reader and the writer are open.\<close>

definition process :: "case_mapping \<Rightarrow> Options \<Rightarrow> source \<Rightarrow> sink \<Rightarrow> outcome option" where
  "process uTo opts src snk =
    (case ParseConv opts of
       Inl e \<Rightarrow> Some (Some e, src, snk)
     | Inr parsedConv \<Rightarrow>
         (case CopyN_Discard src (Offset opts) of
            (Some e, src') \<Rightarrow> Some (Some OffsetFailed, src', snk)
          | (None, src') \<Rightarrow>
              process_loop uTo parsedConv opts
                \<lparr>reader = src', writer = snk, prevBuffer = [], isSpaceEnded = False,
                 totalReadBytes = 0\<rparr>))"


subsection \<open>Sources, sinks and a case mapping for concrete runs\<close>

text \<open>
  \<open>bytes\<close> is the conversion \<^verbatim>\<open>[]byte(s)\<close> of an ASCII string, \<open>file_source\<close> a sound file
  with the given content, \<open>empty_sink\<close> a fresh output without a bound.
  \<open>CaseRanges_fragment\<close> holds the entries of \<^verbatim>\<open>unicode.CaseRanges\<close> for the Latin letters
  \<^verbatim>\<open>A-Z\<close>, \<^verbatim>\<open>a-z\<close> and for the pair U+0250, U+2C6F; it is the mapping of \<^verbatim>\<open>unicode.To\<close> on
  ASCII, on these two runes and on every rune without case, and the concrete runs below
  decode no other rune.
\<close>

definition bytes :: "string \<Rightarrow> byte list" where
  "bytes s = map of_char s"

definition file_source :: "byte list \<Rightarrow> source" where
  "file_source bs = \<lparr>pending = bs, broken = False\<rparr>"

definition empty_sink :: sink where
  "empty_sink = \<lparr>written = [], room = None\<rparr>"

definition CaseRanges_fragment :: case_mapping where
  "CaseRanges_fragment c r =
    (case c of
       unicode_UpperCase \<Rightarrow>
         (if 0x61 \<le> r \<and> r \<le> 0x7A then r - 32 else if r = 0x250 then 0x2C6F else r)
     | unicode_LowerCase \<Rightarrow>
         (if 0x41 \<le> r \<and> r \<le> 0x5A then r + 32 else if r = 0x2C6F then 0x250 else r))"


text \<open>The state in which the main cycle starts, and the first \<open>n\<close> passes through its
  body.\<close>

definition initial_state :: "source \<Rightarrow> sink \<Rightarrow> loop_state" where
  "initial_state src snk =
    \<lparr>reader = src, writer = snk, prevBuffer = [], isSpaceEnded = False, totalReadBytes = 0\<rparr>"

fun iterations ::
  "case_mapping \<Rightarrow> ConvOption list \<Rightarrow> Options \<Rightarrow> nat \<Rightarrow> loop_state \<Rightarrow> outcome + loop_state" where
  "iterations uTo parsedConv opts 0 st = Inr st"
| "iterations uTo parsedConv opts (Suc n) st =
    (case loop_body uTo parsedConv opts st of
       Inl res \<Rightarrow> Inl res
     | Inr st' \<Rightarrow> iterations uTo parsedConv opts n st')"

section \<open>Unfolding the loops\<close>

text \<open>The recursion equations with every recursive call under an \<open>if\<close>: the simplifier
  evaluates a run on a concrete input with them.\<close>

lemma SymbolIterate_unfold:
  "SymbolIterate uTo cs bs buffer w e =
    (if buffer = [] then (buffer, w, e)
     else if length buffer < 3 \<and> (snd (DecodeRune buffer) \<le> 0 \<or> fst (DecodeRune buffer) = RuneError)
       then (buffer, w, e)
     else if fst (conv_range uTo cs (fst (DecodeRune buffer)) e) = None
       then SymbolIterate uTo cs bs (drop (snd (DecodeRune buffer)) buffer) w
              (snd (conv_range uTo cs (fst (DecodeRune buffer)) e))
     else if length (if the (fst (conv_range uTo cs (fst (DecodeRune buffer)) e)) = RuneError
                     then take (snd (DecodeRune buffer)) buffer
                     else AppendRune w (the (fst (conv_range uTo cs (fst (DecodeRune buffer)) e)))) > bs
       then (buffer, w, snd (conv_range uTo cs (fst (DecodeRune buffer)) e))
     else SymbolIterate uTo cs bs (drop (snd (DecodeRune buffer)) buffer)
            (if the (fst (conv_range uTo cs (fst (DecodeRune buffer)) e)) = RuneError
             then take (snd (DecodeRune buffer)) buffer
             else AppendRune w (the (fst (conv_range uTo cs (fst (DecodeRune buffer)) e))))
            (snd (conv_range uTo cs (fst (DecodeRune buffer)) e)))"
  by (subst SymbolIterate.simps) (auto simp: Let_def split: prod.splits option.splits)

lemma lastIndexFunc_unfold:
  "lastIndexFunc s f truth =
    (if s = [] then -1
     else if unat (s ! (length s - 1)) \<ge> RuneSelf
       then (if f (fst (DecodeLastRune s)) = truth then int (length s - snd (DecodeLastRune s))
             else lastIndexFunc (take (length s - snd (DecodeLastRune s)) s) f truth)
     else (if f (uint (s ! (length s - 1))) = truth then int (length s - 1)
           else lastIndexFunc (take (length s - 1) s) f truth))"
  by (subst lastIndexFunc.simps) (auto simp: Let_def)

lemma process_loop_unfold:
  "process_loop uTo cs opts st =
    (if isl (loop_body uTo cs opts st) then Some (projl (loop_body uTo cs opts st))
     else process_loop uTo cs opts (projr (loop_body uTo cs opts st)))"
  by (subst process_loop.simps) (simp split: sum.splits)



lemmas run_defs =
  DecodeRune_def first_def acceptRanges_def RuneError_def RuneSelf_def UTFMax_def
  AppendRune_def IsSpace_def DecodeLastRune_def RuneStart_def TrimRightFunc_def
  Read_def Write_def uint_add_def uint_sub_def Let_def
  loop_body_def process_def ParseConv_def ConvMapper_def CopyN_Discard_def
  SymbolIterate_unfold lastIndexFunc_unfold process_loop_unfold
  bytes_def file_source_def empty_sink_def

subsection \<open>One step of the loop over the runes, and what it leaves in the buffer\<close>

lemma DecodeRune_size_le: "snd (DecodeRune p) \<le> 4"
  by (simp add: DecodeRune_def Let_def)

lemma AppendRune_length_le: "length (AppendRune w r) \<le> length w + 4"
  by (simp add: AppendRune_def Let_def)

lemma SymbolIterate_nil: "SymbolIterate uTo cs bs [] w e = ([], w, e)"
  by (subst SymbolIterate_unfold) simp

lemma SymbolIterate_stop:
  "buffer \<noteq> [] \<Longrightarrow>
   length buffer < 3 \<and> (snd (DecodeRune buffer) \<le> 0 \<or> fst (DecodeRune buffer) = RuneError) \<Longrightarrow>
   SymbolIterate uTo cs bs buffer w e = (buffer, w, e)"
  by (subst SymbolIterate_unfold) auto

lemma SymbolIterate_drop:
  "buffer \<noteq> [] \<Longrightarrow>
   \<not> (length buffer < 3 \<and> (snd (DecodeRune buffer) \<le> 0 \<or> fst (DecodeRune buffer) = RuneError)) \<Longrightarrow>
   fst (conv_range uTo cs (fst (DecodeRune buffer)) e) = None \<Longrightarrow>
   SymbolIterate uTo cs bs buffer w e =
     SymbolIterate uTo cs bs (drop (snd (DecodeRune buffer)) buffer) w
       (snd (conv_range uTo cs (fst (DecodeRune buffer)) e))"
  by (subst SymbolIterate_unfold) auto

lemma SymbolIterate_full:
  "buffer \<noteq> [] \<Longrightarrow>
   \<not> (length buffer < 3 \<and> (snd (DecodeRune buffer) \<le> 0 \<or> fst (DecodeRune buffer) = RuneError)) \<Longrightarrow>
   fst (conv_range uTo cs (fst (DecodeRune buffer)) e) = Some r' \<Longrightarrow>
   bs < length (if r' = RuneError then take (snd (DecodeRune buffer)) buffer else AppendRune w r') \<Longrightarrow>
   SymbolIterate uTo cs bs buffer w e =
     (buffer, w, snd (conv_range uTo cs (fst (DecodeRune buffer)) e))"
  by (subst SymbolIterate_unfold) auto

lemma SymbolIterate_keep:
  "buffer \<noteq> [] \<Longrightarrow>
   \<not> (length buffer < 3 \<and> (snd (DecodeRune buffer) \<le> 0 \<or> fst (DecodeRune buffer) = RuneError)) \<Longrightarrow>
   fst (conv_range uTo cs (fst (DecodeRune buffer)) e) = Some r' \<Longrightarrow>
   \<not> bs < length (if r' = RuneError then take (snd (DecodeRune buffer)) buffer else AppendRune w r') \<Longrightarrow>
   SymbolIterate uTo cs bs buffer w e =
     SymbolIterate uTo cs bs (drop (snd (DecodeRune buffer)) buffer)
       (if r' = RuneError then take (snd (DecodeRune buffer)) buffer else AppendRune w r')
       (snd (conv_range uTo cs (fst (DecodeRune buffer)) e))"
  by (subst SymbolIterate_unfold) auto

lemma SymbolIterate_carry:
  "SymbolIterate uTo cs bs buffer w e = (buffer', w', e') \<Longrightarrow>
     (\<exists>consumed. buffer = consumed @ buffer') \<and> (length buffer' < 3 \<or> bs < length w' + 4)"
proof (induction "length buffer" arbitrary: buffer w e rule: less_induct)
  case less
  let ?r = "fst (DecodeRune buffer)" and ?size = "snd (DecodeRune buffer)"
  let ?cr = "conv_range uTo cs ?r e"
  show ?case
  proof (cases "buffer = []")
    case True
    with less.prems show ?thesis by (simp add: SymbolIterate_nil)
  next
    case ne: False
    then have pos: "0 < ?size" by (simp add: DecodeRune_size_pos)
    then have shorter: "length (drop ?size buffer) < length buffer" using ne by simp
    have step: "\<exists>consumed. buffer = consumed @ buffer'"
      if "\<exists>consumed. drop ?size buffer = consumed @ buffer'"
    proof -
      from that obtain c where "drop ?size buffer = c @ buffer'" by blast
      then have "buffer = (take ?size buffer @ c) @ buffer'"
        by (metis append_take_drop_id append.assoc)
      then show ?thesis by blast
    qed
    show ?thesis
    proof (cases "length buffer < 3 \<and> (?size \<le> 0 \<or> ?r = RuneError)")
      case True
      from SymbolIterate_stop [OF ne True] less.prems True show ?thesis by auto
    next
      case guard: False
      show ?thesis
      proof (cases "fst ?cr")
        case None
        from SymbolIterate_drop [OF ne guard None] less.prems
        have "SymbolIterate uTo cs bs (drop ?size buffer) w (snd ?cr) = (buffer', w', e')"
          by simp
        from less.hyps [OF shorter this] step show ?thesis by blast
      next
        case (Some r')
        let ?new = "if r' = RuneError then take ?size buffer else AppendRune w r'"
        show ?thesis
        proof (cases "bs < length ?new")
          case True
          from SymbolIterate_full [OF ne guard Some True] less.prems
          have eq: "buffer' = buffer" "w' = w" by simp_all
          have "length ?new \<le> length w + 4"
            using DecodeRune_size_le [of buffer] AppendRune_length_le [of w r'] by auto
          with True eq show ?thesis by auto
        next
          case False
          from SymbolIterate_keep [OF ne guard Some False] less.prems
          have "SymbolIterate uTo cs bs (drop ?size buffer) ?new (snd ?cr) = (buffer', w', e')"
            by simp
          from less.hyps [OF shorter this] step show ?thesis by blast
        qed
      qed
    qed
  qed
qed

lemma iterations_numeral:
  "iterations uTo cs opts (numeral k) st =
    (if isl (loop_body uTo cs opts st) then Inl (projl (loop_body uTo cs opts st))
     else iterations uTo cs opts (pred_numeral k) (projr (loop_body uTo cs opts st)))"
  by (simp add: numeral_eq_Suc split: sum.splits)

lemma iterations_one:
  "iterations uTo cs opts (Suc 0) st =
    (if isl (loop_body uTo cs opts st) then Inl (projl (loop_body uTo cs opts st))
     else Inr (projr (loop_body uTo cs opts st)))"
  by (simp split: sum.splits)

lemma first_size:
  "first b \<ge> 0xF0 \<or> first b mod 8 = 2 \<or> first b mod 8 = 3 \<or> first b mod 8 = 4"
  by (simp add: first_def Let_def)

lemma DecodeRune_size_le_length: "snd (DecodeRune p) \<le> length p"
proof (cases "p = []")
  case True
  then show ?thesis by (simp add: DecodeRune_def)
next
  case False
  then have n: "1 \<le> length p" by (cases p) simp_all
  consider (one) "first (p ! 0) \<ge> 0xF0"
    | (two) "\<not> first (p ! 0) \<ge> 0xF0" "first (p ! 0) mod 8 = 2"
    | (three) "\<not> first (p ! 0) \<ge> 0xF0" "first (p ! 0) mod 8 = 3"
    | (four) "\<not> first (p ! 0) \<ge> 0xF0" "first (p ! 0) mod 8 = 4"
    using first_size [of "p ! 0"] by blast
  then show ?thesis
  proof cases
    case one
    with n show ?thesis by (simp add: DecodeRune_def Let_def)
  next
    case two
    with n show ?thesis by (simp add: DecodeRune_def Let_def)
  next
    case three
    with n show ?thesis by (simp add: DecodeRune_def Let_def)
  next
    case four
    with n show ?thesis by (simp add: DecodeRune_def Let_def)
  qed
qed

text \<open>The test that ends the loop over the runes at line 200 of \<^verbatim>\<open>main.go\<close>: the buffer
  is not empty, the guard on short buffers lets its first code point through, the
  conversions keep it, and with it \<^verbatim>\<open>newWriteBuf\<close> would be longer than the block size.\<close>

definition stops_at_block_size ::
  "case_mapping \<Rightarrow> ConvOption list \<Rightarrow> nat \<Rightarrow> byte list \<Rightarrow> byte list \<Rightarrow> bool \<Rightarrow> bool" where
  "stops_at_block_size uTo parsedConv blockSize buffer writerBuf ended =
    (buffer \<noteq> []
     \<and> \<not> (length buffer < 3 \<and> (snd (DecodeRune buffer) \<le> 0 \<or> fst (DecodeRune buffer) = RuneError))
     \<and> (case fst (conv_range uTo parsedConv (fst (DecodeRune buffer)) ended) of
          None \<Rightarrow> False
        | Some r' \<Rightarrow>
            blockSize < length (if r' = RuneError then take (snd (DecodeRune buffer)) buffer
                                else AppendRune writerBuf r')))"

lemma SymbolIterate_carry_stop:
  "SymbolIterate uTo cs bs buffer w e = (buffer', w', e') \<Longrightarrow>
     length buffer' < 3
     \<or> ((\<exists>e0. stops_at_block_size uTo cs bs buffer' w' e0
              \<and> e' = snd (conv_range uTo cs (fst (DecodeRune buffer')) e0))
        \<and> bs < length w' + 4)"
proof (induction "length buffer" arbitrary: buffer w e rule: less_induct)
  case less
  let ?r = "fst (DecodeRune buffer)" and ?size = "snd (DecodeRune buffer)"
  let ?cr = "conv_range uTo cs ?r e"
  show ?case
  proof (cases "buffer = []")
    case True
    with less.prems show ?thesis by (simp add: SymbolIterate_nil)
  next
    case ne: False
    then have pos: "0 < ?size" by (simp add: DecodeRune_size_pos)
    then have shorter: "length (drop ?size buffer) < length buffer" using ne by simp
    show ?thesis
    proof (cases "length buffer < 3 \<and> (?size \<le> 0 \<or> ?r = RuneError)")
      case True
      from SymbolIterate_stop [OF ne True] less.prems True show ?thesis by auto
    next
      case guard: False
      show ?thesis
      proof (cases "fst ?cr")
        case None
        from SymbolIterate_drop [OF ne guard None] less.prems
        have "SymbolIterate uTo cs bs (drop ?size buffer) w (snd ?cr) = (buffer', w', e')"
          by simp
        from less.hyps [OF shorter this] show ?thesis .
      next
        case (Some r')
        let ?new = "if r' = RuneError then take ?size buffer else AppendRune w r'"
        show ?thesis
        proof (cases "bs < length ?new")
          case True
          from SymbolIterate_full [OF ne guard Some True] less.prems
          have eq: "buffer' = buffer" "w' = w" "e' = snd ?cr" by simp_all
          have "length ?new \<le> length w + 4"
            using DecodeRune_size_le [of buffer] AppendRune_length_le [of w r'] by auto
          with True have near: "bs < length w + 4" by simp
          have "stops_at_block_size uTo cs bs buffer w e"
            using ne guard Some True by (simp add: stops_at_block_size_def)
          with eq near show ?thesis by blast
        next
          case False
          from SymbolIterate_keep [OF ne guard Some False] less.prems
          have "SymbolIterate uTo cs bs (drop ?size buffer) ?new (snd ?cr) = (buffer', w', e')"
            by simp
          from less.hyps [OF shorter this] show ?thesis .
        qed
      qed
    qed
  qed
qed

lemma stops_at_block_size_fixed:
  "stops_at_block_size uTo cs bs buffer w e0 \<Longrightarrow>
   SymbolIterate uTo cs bs buffer w e0
     = (buffer, w, snd (conv_range uTo cs (fst (DecodeRune buffer)) e0))"
  by (subst SymbolIterate_unfold) (auto simp: stops_at_block_size_def split: option.splits)

section \<open>The claims about \<^verbatim>\<open>process\<close>\<close>

text \<open>
  C5. \<^verbatim>\<open>process\<close> drops exactly \<open>Offset\<close> bytes of the source before the main cycle
  starts: with a readable \<^verbatim>\<open>-conv\<close> flag, a run is the main cycle started on the source
  without its first \<open>Offset\<close> bytes, on the sink as it was given. When the source holds
  fewer bytes than \<open>Offset\<close>, the run ends with the offset error and the sink is the one
  given: nothing was written.
\<close>

theorem C5_offset:
  assumes "ParseConv opts = Inr parsedConv"
  shows "process uTo opts src snk =
    (if Offset opts \<le> 0 then
       process_loop uTo parsedConv opts (initial_state src snk)
     else if nat (Offset opts) \<le> length (pending src) then
       process_loop uTo parsedConv opts
         (initial_state (src\<lparr>pending := drop (nat (Offset opts)) (pending src)\<rparr>) snk)
     else Some (Some OffsetFailed, src\<lparr>pending := []\<rparr>, snk))"
  using assms by (simp add: process_def CopyN_Discard_def initial_state_def)

theorem C5_offset_witness:
  "ParseConv \<lparr>From = [], To = [], Offset = 10, Limit = 0, BlockSize = 4, Conv = []\<rparr> = Inr []
   \<and> process CaseRanges_fragment
        \<lparr>From = [], To = [], Offset = 10, Limit = 0, BlockSize = 4, Conv = []\<rparr>
        (file_source (bytes ''01234'')) empty_sink
      = Some (Some OffsetFailed, file_source [], empty_sink)"
proof -
  have p: "ParseConv \<lparr>From = [], To = [], Offset = 10, Limit = 0, BlockSize = 4, Conv = []\<rparr> = Inr []"
    by (simp add: ParseConv_def)
  show ?thesis
    using p C5_offset [OF p, of CaseRanges_fragment "file_source (bytes ''01234'')" empty_sink]
    by (simp add: file_source_def bytes_def)
qed

text \<open>
  C6. For the input \<^verbatim>\<open>0123456789\<close> with offset 3, limit 4, no conversion and any block size
  from 1 on (a \<^verbatim>\<open>uint\<close>), \<^verbatim>\<open>process\<close> ends without error, has written exactly \<^verbatim>\<open>3456\<close>
  and has left \<^verbatim>\<open>789\<close> in the source: it has read 4 bytes after the offset and no more.
\<close>

theorem C6_window:
  assumes "1 \<le> bs" and "bs < 2 ^ 64"
  shows "process uTo \<lparr>From = f, To = t, Offset = 3, Limit = 4, BlockSize = bs, Conv = []\<rparr>
           (file_source (bytes ''0123456789'')) empty_sink
         = Some (None, file_source (bytes ''789''), \<lparr>written = bytes ''3456'', room = None\<rparr>)"
proof -
  consider "bs = 1" | "bs = 2" | "bs = 3" | "bs = 4" | "5 \<le> bs"
    using assms(1) by linarith
  then show ?thesis
  proof cases
    case 1
    then show ?thesis by (simp add: run_defs)
  next
    case 2
    then show ?thesis by (simp add: run_defs)
  next
    case 3
    then show ?thesis by (simp add: run_defs)
  next
    case 4
    then show ?thesis by (simp add: run_defs)
  next
    case 5
    then show ?thesis using assms(2) by (simp add: run_defs)
  qed
qed

theorem C6_window_witness:
  "(1::nat) \<le> 3 \<and> (3::nat) < 2 ^ 64
   \<and> process CaseRanges_fragment
        \<lparr>From = [], To = [], Offset = 3, Limit = 4, BlockSize = 3, Conv = []\<rparr>
        (file_source (bytes ''0123456789'')) empty_sink
      = Some (None, file_source (bytes ''789''), \<lparr>written = bytes ''3456'', room = None\<rparr>)"
  using C6_window [where bs = 3 and uTo = CaseRanges_fragment and f = "[]" and t = "[]"]
  by simp

text \<open>
  C7. For the input \<^verbatim>\<open>"  hi  there "\<close> with the conversion \<^verbatim>\<open>trim_spaces\<close>, no offset, no
  limit and a block size that holds the whole input (12 bytes or more), \<^verbatim>\<open>process\<close> writes
  exactly \<^verbatim>\<open>"hi  there"\<close>: the leading and the trailing blanks are gone, the two blanks
  inside are kept.
\<close>

theorem C7_trim:
  assumes "12 \<le> bs"
  shows "process uTo
           \<lparr>From = f, To = t, Offset = 0, Limit = 0, BlockSize = bs, Conv = ''trim_spaces''\<rparr>
           (file_source (bytes ''  hi  there '')) empty_sink
         = Some (None, file_source [], \<lparr>written = bytes ''hi  there'', room = None\<rparr>)"
  using assms by (simp add: run_defs)

theorem C7_trim_witness:
  "(12::nat) \<le> 12
   \<and> process CaseRanges_fragment
        \<lparr>From = [], To = [], Offset = 0, Limit = 0, BlockSize = 12, Conv = ''trim_spaces''\<rparr>
        (file_source (bytes ''  hi  there '')) empty_sink
      = Some (None, file_source [], \<lparr>written = bytes ''hi  there'', room = None\<rparr>)"
  using C7_trim [where bs = 12 and uTo = CaseRanges_fragment and f = "[]" and t = "[]"]
  by simp

text \<open>
  C1. The identity does not hold on the code. The input \<^verbatim>\<open>ab\<close> followed by U+1F600 (bytes
  \<^verbatim>\<open>F0 9F 98 80\<close>) is valid UTF-8; with block size 5 the first block ends inside the
  four-byte code point. The three bytes \<^verbatim>\<open>F0 9F 98\<close> pass the guard \<^verbatim>\<open>len(buffer) < 3\<close>,
  decode to \<^verbatim>\<open>RuneError\<close>, and the branch for \<^verbatim>\<open>RuneError\<close> builds \<^verbatim>\<open>newWriteBuf\<close> from
  an empty slice instead of \<^verbatim>\<open>writerBuf\<close>: the bytes \<^verbatim>\<open>ab\<close>, accepted before, are lost.
\<close>

theorem C1_identity_fails:
  "process CaseRanges_fragment
     \<lparr>From = [], To = [], Offset = 0, Limit = 0, BlockSize = 5, Conv = []\<rparr>
     (file_source [0x61, 0x62, 0xF0, 0x9F, 0x98, 0x80]) empty_sink
   = Some (None, file_source [], \<lparr>written = [0xF0, 0x9F, 0x98, 0x80], room = None\<rparr>)"
  by (simp add: run_defs)

text \<open>
  C2. An invalid byte does not stop the run and is written as it is, but the bytes accepted
  before it in the same block are dropped: for the input \<^verbatim>\<open>61 FF 62 63\<close> in one block,
  the output is \<^verbatim>\<open>FF 62 63\<close>, without the \<^verbatim>\<open>61\<close> that was already in \<^verbatim>\<open>writerBuf\<close>.
\<close>

theorem C2_invalid_byte_drops_block:
  "process CaseRanges_fragment
     \<lparr>From = [], To = [], Offset = 0, Limit = 0, BlockSize = 10, Conv = []\<rparr>
     (file_source [0x61, 0xFF, 0x62, 0x63]) empty_sink
   = Some (None, file_source [], \<lparr>written = [0xFF, 0x62, 0x63], room = None\<rparr>)"
  by (simp add: run_defs)

text \<open>
  C4 as the specification states it: the bytes carried over are always fewer than the 4 of
  the longest encoding, and never whole code points. On the code this fails. With block
  size 1 the two bytes of U+00E9 never fit into the output of one block, the loop over the
  runes stops at the test of \<^verbatim>\<open>len(newWriteBuf)\<close> against the block size every time, and
  \<^verbatim>\<open>prevBuffer\<close> takes up every byte read: after four passes it holds the four bytes
  \<^verbatim>\<open>C3 A9 61 62\<close>, three whole code points.
\<close>

theorem C4_carry_longer_than_a_rune:
  "iterations CaseRanges_fragment []
     \<lparr>From = [], To = [], Offset = 0, Limit = 0, BlockSize = 1, Conv = []\<rparr> 4
     (initial_state (file_source [0xC3, 0xA9, 0x61, 0x62]) empty_sink)
   = Inr \<lparr>reader = file_source [], writer = empty_sink, prevBuffer = [0xC3, 0xA9, 0x61, 0x62],
          isSpaceEnded = False, totalReadBytes = 4\<rparr>
   \<and> \<not> length [0xC3, 0xA9, 0x61, 0x62 :: byte] < UTFMax"
  by (simp add: run_defs initial_state_def iterations_numeral iterations_one del: iterations.simps)

text \<open>
  C4, amended: what the loop over the runes leaves in \<^verbatim>\<open>buffer\<close>, which becomes
  \<^verbatim>\<open>prevBuffer\<close>, is a suffix of the buffer it started with (the previous carry followed
  by the bytes read). It is shorter than 3 bytes, the bound of the guard in the code,
  unless the loop stopped at the test against the block size: then the code point at the
  head of what is left passed the guard and the conversions and did not fit into the
  output of the block, all its bytes and everything after them are in what is left, and
  the output of the block is within 4 bytes of the block size.
\<close>

theorem C4_carry:
  assumes "SymbolIterate uTo parsedConv blockSize buffer writerBuf spaceEnded
             = (buffer', writerBuf', ended)"
  shows "(\<exists>consumed. buffer = consumed @ buffer')
         \<and> (length buffer' < 3
            \<or> ((\<exists>ended0. stops_at_block_size uTo parsedConv blockSize buffer' writerBuf' ended0
                    \<and> ended = snd (conv_range uTo parsedConv (fst (DecodeRune buffer')) ended0))
               \<and> snd (DecodeRune buffer') \<le> length buffer'
               \<and> blockSize < length writerBuf' + 4))"
  using SymbolIterate_carry [OF assms] SymbolIterate_carry_stop [OF assms]
    DecodeRune_size_le_length [of buffer']
  by blast

theorem C4_carry_witness:
  "SymbolIterate CaseRanges_fragment [] 1 [0xC3, 0xA9, 0x61] [] False = ([0xC3, 0xA9, 0x61], [], False)
   \<and> stops_at_block_size CaseRanges_fragment [] 1 [0xC3, 0xA9, 0x61] [] False
   \<and> (\<exists>consumed. [0xC3, 0xA9, 0x61 :: byte] = consumed @ [0xC3, 0xA9, 0x61])
   \<and> (length [0xC3, 0xA9, 0x61 :: byte] < 3
      \<or> ((\<exists>ended0. stops_at_block_size CaseRanges_fragment [] 1 [0xC3, 0xA9, 0x61] [] ended0
              \<and> False = snd (conv_range CaseRanges_fragment []
                                 (fst (DecodeRune [0xC3, 0xA9, 0x61])) ended0))
         \<and> snd (DecodeRune [0xC3, 0xA9, 0x61]) \<le> length [0xC3, 0xA9, 0x61 :: byte]
         \<and> (1::nat) < length ([] :: byte list) + 4))"
proof -
  have ev: "SymbolIterate CaseRanges_fragment [] 1 [0xC3, 0xA9, 0x61] [] False
            = ([0xC3, 0xA9, 0x61], [], False)"
    by (simp add: run_defs)
  have st: "stops_at_block_size CaseRanges_fragment [] 1 [0xC3, 0xA9, 0x61] [] False"
    by (simp add: stops_at_block_size_def run_defs)
  from C4_carry [OF ev] ev st show ?thesis by blast
qed

text \<open>
  C9. A pass in which the reader reports the end of the input (a drained, sound source; no
  limit): whatever the loop over the runes leaves in the buffer, for whatever reason it
  stopped, is written to the sink as it is, right after the converted and trimmed block,
  and \<^verbatim>\<open>process\<close> returns without error. The bytes left are a suffix of the buffer of that
  pass. In the run of the witness the loop stops at the block-size test: the second
  U+0250 of the buffer is a whole code point, and it reaches the sink in lower case after
  the upper-case U+2C6F of the first.
\<close>

theorem C9_flush_at_eof:
  assumes "pending (reader st) = []" and "\<not> broken (reader st)"
    and "room (writer st) = None"
    and "0 < BlockSize opts" and "Limit opts = 0"
    and "SymbolIterate uTo parsedConv (BlockSize opts) (prevBuffer st) [] (isSpaceEnded st)
          = (rest, writerBuf, ended)"
  shows "loop_body uTo parsedConv opts st =
           Inl (None, reader st,
                (writer st)\<lparr>written := written (writer st)
                   @ (if ended then TrimRightFunc writerBuf IsSpace else writerBuf) @ rest\<rparr>)
         \<and> (\<exists>consumed. prevBuffer st = consumed @ rest)"
proof -
  have "\<exists>consumed. prevBuffer st = consumed @ rest"
    using SymbolIterate_carry [OF assms(6)] by simp
  moreover have "loop_body uTo parsedConv opts st =
           Inl (None, reader st,
                (writer st)\<lparr>written := written (writer st)
                   @ (if ended then TrimRightFunc writerBuf IsSpace else writerBuf) @ rest\<rparr>)"
    using assms by (simp add: loop_body_def Read_def Write_def Let_def)
  ultimately show ?thesis by simp
qed

theorem C9_flush_at_eof_witness:
  "pending (file_source []) = [] \<and> \<not> broken (file_source [])
   \<and> room \<lparr>written = [0xE2, 0xB1, 0xAF, 0xE2, 0xB1, 0xAF], room = None\<rparr> = None
   \<and> (0::nat) < 4
   \<and> SymbolIterate CaseRanges_fragment [UpperCase] 4 [0xC9, 0x90, 0xC9, 0x90] [] False
        = ([0xC9, 0x90], [0xE2, 0xB1, 0xAF], False)
   \<and> loop_body CaseRanges_fragment [UpperCase]
        \<lparr>From = [], To = [], Offset = 0, Limit = 0, BlockSize = 4, Conv = ''upper_case''\<rparr>
        \<lparr>reader = file_source [],
         writer = \<lparr>written = [0xE2, 0xB1, 0xAF, 0xE2, 0xB1, 0xAF], room = None\<rparr>,
         prevBuffer = [0xC9, 0x90, 0xC9, 0x90], isSpaceEnded = False, totalReadBytes = 8\<rparr>
      = Inl (None, file_source [],
             \<lparr>written = [0xE2, 0xB1, 0xAF, 0xE2, 0xB1, 0xAF] @ [0xE2, 0xB1, 0xAF] @ [0xC9, 0x90],
              room = None\<rparr>)"
proof -
  have ev: "SymbolIterate CaseRanges_fragment [UpperCase] 4 [0xC9, 0x90, 0xC9, 0x90] [] False
        = ([0xC9, 0x90], [0xE2, 0xB1, 0xAF], False)"
    by (simp add: run_defs CaseRanges_fragment_def)
  show ?thesis
    using ev
      C9_flush_at_eof [where st = "\<lparr>reader = file_source [],
         writer = \<lparr>written = [0xE2, 0xB1, 0xAF, 0xE2, 0xB1, 0xAF], room = None\<rparr>,
         prevBuffer = [0xC9, 0x90, 0xC9, 0x90], isSpaceEnded = False, totalReadBytes = 8\<rparr>"
        and opts = "\<lparr>From = [], To = [], Offset = 0, Limit = 0, BlockSize = 4, Conv = ''upper_case''\<rparr>"
        and uTo = CaseRanges_fragment and parsedConv = "[UpperCase]"
        and rest = "[0xC9, 0x90]" and writerBuf = "[0xE2, 0xB1, 0xAF]" and ended = False]
    by (simp add: file_source_def)
qed

text \<open>The state of the witness of C9 is the one \<^verbatim>\<open>process\<close> reaches on four U+0250 with
  block size 4.\<close>

lemma flush_state_reached: "iterations CaseRanges_fragment [UpperCase]
     \<lparr>From = [], To = [], Offset = 0, Limit = 0, BlockSize = 4, Conv = ''upper_case''\<rparr> 2
     (initial_state (file_source [0xC9, 0x90, 0xC9, 0x90, 0xC9, 0x90, 0xC9, 0x90]) empty_sink)
   = Inr \<lparr>reader = file_source [],
         writer = \<lparr>written = [0xE2, 0xB1, 0xAF, 0xE2, 0xB1, 0xAF], room = None\<rparr>,
         prevBuffer = [0xC9, 0x90, 0xC9, 0x90], isSpaceEnded = False, totalReadBytes = 8\<rparr>"
  by (simp add: run_defs initial_state_def iterations_numeral iterations_one CaseRanges_fragment_def del: iterations.simps)

section \<open>Runs on ASCII input\<close>












subsection \<open>One ASCII rune, one ASCII block\<close>

















subsection \<open>Trimming block by block and trimming the stream\<close>




















subsection \<open>The main cycle on ASCII input\<close>








subsection \<open>The claims about block size and about the upper case\<close>







section \<open>The tag cloud of lesson 2\<close>

text \<open>
  \<^verbatim>\<open>OccurrenceCount\<close> is a Go \<^verbatim>\<open>int\<close> of 64 bits: \<open>wrap_int\<close> is the value an arithmetic
  result has in that type. The map \<^verbatim>\<open>tags\<close> is a partial function. \<^verbatim>\<open>range\<close> visits the
  keys of a Go map in an order that the language leaves open: the order is the argument
  \<open>visit\<close> of \<open>TopN\<close>. \<^verbatim>\<open>slices.SortFunc\<close> is the insertion sort that the library runs on
  short slices; on long ones the library may leave elements that compare equal in another
  order.
\<close>

definition wrap_int :: "int \<Rightarrow> int" where
  "wrap_int x = (x + 2 ^ 63) mod 2 ^ 64 - 2 ^ 63"

record TagStat =
  Tag :: string
  OccurrenceCount :: int

record TagCloud =
  tags :: "string \<rightharpoonup> int"

definition New :: TagCloud where
  "New = \<lparr>tags = Map.empty\<rparr>"

definition AddTag :: "TagCloud \<Rightarrow> string \<Rightarrow> TagCloud" where
  "AddTag cloud tag =
    cloud\<lparr>tags := (tags cloud)(tag \<mapsto>
      wrap_int ((case tags cloud tag of None \<Rightarrow> 0 | Some c \<Rightarrow> c) + 1))\<rparr>"

fun insertCmp :: "('a \<Rightarrow> 'a \<Rightarrow> int) \<Rightarrow> 'a \<Rightarrow> 'a list \<Rightarrow> 'a list" where
  "insertCmp cmp x [] = [x]"
| "insertCmp cmp x (y # ys) = (if cmp x y < 0 then x # y # ys else y # insertCmp cmp x ys)"

definition SortFunc :: "'a list \<Rightarrow> ('a \<Rightarrow> 'a \<Rightarrow> int) \<Rightarrow> 'a list" where
  "SortFunc xs cmp = foldl (\<lambda>sorted x. insertCmp cmp x sorted) [] xs"

datatype panic = SliceBoundsOutOfRange

definition TopN :: "TagCloud \<Rightarrow> string list \<Rightarrow> int \<Rightarrow> panic + TagStat list" where
  "TopN cloud visit n =
    (let tags0 = map (\<lambda>tag. \<lparr>Tag = tag, OccurrenceCount = the (tags cloud tag)\<rparr>) visit;
         tags1 = SortFunc tags0 (\<lambda>a b. wrap_int (OccurrenceCount b - OccurrenceCount a));
         n' = (if int (length tags1) < n then int (length tags1) else n)
     in if n' < 0 then Inl SliceBoundsOutOfRange else Inr (take (nat n') tags1))"

lemma wrap_int_id: "- (2 ^ 63) \<le> x \<Longrightarrow> x < 2 ^ 63 \<Longrightarrow> wrap_int x = x"
  by (simp add: wrap_int_def)

lemma tags_AddTag:
  "tags (AddTag c x) t =
    (if t = x then Some (wrap_int ((case tags c x of None \<Rightarrow> 0 | Some k \<Rightarrow> k) + 1))
     else tags c t)"
  by (simp add: AddTag_def)

lemma tags_foldl_AddTag:
  "length calls < 2 ^ 63 \<Longrightarrow>
   tags (foldl AddTag New calls) t =
     (if t \<in> set calls then Some (int (count_list calls t)) else None)"
proof (induction calls arbitrary: t rule: rev_induct)
  case Nil
  then show ?case by (simp add: New_def)
next
  case (snoc x calls)
  from snoc.prems have "length calls < 2 ^ 63" by simp
  then have IH: "\<And>t. tags (foldl AddTag New calls) t =
     (if t \<in> set calls then Some (int (count_list calls t)) else None)"
    by (rule snoc.IH)
  have "count_list calls x \<le> length calls" by (rule count_le_length)
  with snoc.prems have small: "int (count_list calls x) + 1 < 2 ^ 63" by simp
  have w: "wrap_int (int (count_list calls x) + 1) = int (count_list calls x) + 1"
    using small by (intro wrap_int_id) simp_all
  have w0: "wrap_int 1 = 1" by (simp add: wrap_int_def)
  have cz: "x \<notin> set calls \<Longrightarrow> count_list calls x = 0"
    by (simp add: count_list_0_iff)
  show ?case
    using w w0 cz by (simp add: tags_AddTag IH)
qed

definition in_range :: "TagStat \<Rightarrow> bool" where
  "in_range a = (0 \<le> OccurrenceCount a \<and> OccurrenceCount a < 2 ^ 63)"

lemma cmp_no_wrap:
  "in_range a \<Longrightarrow> in_range b \<Longrightarrow>
   wrap_int (OccurrenceCount b - OccurrenceCount a) = OccurrenceCount b - OccurrenceCount a"
  by (intro wrap_int_id) (simp_all add: in_range_def)

lemma set_insertCmp: "set (insertCmp cmp x ys) = insert x (set ys)"
  by (induction ys) auto

lemma length_insertCmp: "length (insertCmp cmp x ys) = Suc (length ys)"
  by (induction ys) auto

lemma sorted_insertCmp:
  "in_range x \<Longrightarrow> \<forall>y\<in>set ys. in_range y \<Longrightarrow>
   sorted_wrt (\<lambda>a b. OccurrenceCount b \<le> OccurrenceCount a) ys \<Longrightarrow>
   sorted_wrt (\<lambda>a b. OccurrenceCount b \<le> OccurrenceCount a)
     (insertCmp (\<lambda>a b. wrap_int (OccurrenceCount b - OccurrenceCount a)) x ys)"
proof (induction ys)
  case Nil
  then show ?case by simp
next
  case (Cons y ys)
  then have c: "wrap_int (OccurrenceCount y - OccurrenceCount x) = OccurrenceCount y - OccurrenceCount x"
    by (simp add: cmp_no_wrap)
  show ?case
  proof (cases "OccurrenceCount y - OccurrenceCount x < 0")
    case True
    with Cons.prems c show ?thesis by (auto intro: order_trans)
  next
    case False
    with Cons c show ?thesis by (auto simp: set_insertCmp)
  qed
qed

lemma SortFunc_snoc: "SortFunc (xs @ [x]) cmp = insertCmp cmp x (SortFunc xs cmp)"
  by (simp add: SortFunc_def)

lemma set_SortFunc: "set (SortFunc xs cmp) = set xs"
  by (induction xs rule: rev_induct) (simp_all add: SortFunc_snoc set_insertCmp, simp add: SortFunc_def)

lemma length_SortFunc: "length (SortFunc xs cmp) = length xs"
  by (induction xs rule: rev_induct) (simp_all add: SortFunc_snoc length_insertCmp, simp add: SortFunc_def)

lemma sorted_SortFunc:
  "\<forall>y\<in>set xs. in_range y \<Longrightarrow>
   sorted_wrt (\<lambda>a b. OccurrenceCount b \<le> OccurrenceCount a)
     (SortFunc xs (\<lambda>a b. wrap_int (OccurrenceCount b - OccurrenceCount a)))"
proof (induction xs rule: rev_induct)
  case Nil
  then show ?case by (simp add: SortFunc_def)
next
  case (snoc x xs)
  then show ?case
    by (simp add: SortFunc_snoc sorted_insertCmp set_SortFunc)
qed

lemma sorted_wrt_take: "sorted_wrt P xs \<Longrightarrow> sorted_wrt P (take k xs)"
  by (induction xs arbitrary: k) (auto simp: take_Cons' dest: in_set_takeD)

text \<open>
  C10. For a cloud built by \<^verbatim>\<open>New\<close> and any sequence of \<^verbatim>\<open>AddTag\<close> calls (fewer than
  \<open>2 ^ 63\<close>, so that no count leaves the type \<^verbatim>\<open>int\<close>), for every order in which \<^verbatim>\<open>range\<close>
  may visit the map and every \<open>n\<close> from 0 on, \<^verbatim>\<open>TopN\<close> returns without panic exactly
  \<open>min n d\<close> entries, \<open>d\<close> the number of distinct tags added; the counts of the entries
  never increase along the result, and the count of each entry is the number of \<^verbatim>\<open>AddTag\<close>
  calls made for its tag.
\<close>

theorem C10_TopN:
  assumes n: "0 \<le> n"
    and d: "distinct visit"
    and v: "set visit = dom (tags (foldl AddTag New calls))"
    and len: "length calls < 2 ^ 63"
  shows "\<exists>res. TopN (foldl AddTag New calls) visit n = Inr res
           \<and> length res = min (nat n) (card (set calls))
           \<and> sorted_wrt (\<lambda>a b. OccurrenceCount b \<le> OccurrenceCount a) res
           \<and> list_all (\<lambda>e. OccurrenceCount e = int (count_list calls (Tag e))) res"
proof -
  let ?cloud = "foldl AddTag New calls"
  let ?tags0 = "map (\<lambda>tag. \<lparr>Tag = tag, OccurrenceCount = the (tags ?cloud tag)\<rparr>) visit"
  let ?cmp = "\<lambda>a b. wrap_int (OccurrenceCount b - OccurrenceCount a)"
  let ?tags1 = "SortFunc ?tags0 ?cmp"
  let ?n' = "if int (length ?tags1) < n then int (length ?tags1) else n"
  have tg: "\<And>t. tags ?cloud t = (if t \<in> set calls then Some (int (count_list calls t)) else None)"
    using len by (rule tags_foldl_AddTag)
  have dm: "dom (tags ?cloud) = set calls"
    by (auto simp: tg dom_def)
  with v have sv: "set visit = set calls" by simp
  have card: "card (set calls) = length visit"
    using d sv distinct_card [of visit] by simp
  have cnt: "\<forall>e\<in>set ?tags0. OccurrenceCount e = int (count_list calls (Tag e))"
    using sv by (auto simp: tg)
  have "\<forall>e\<in>set ?tags0. in_range e"
  proof
    fix e assume e: "e \<in> set ?tags0"
    have "count_list calls (Tag e) \<le> length calls" by (rule count_le_length)
    moreover from cnt e have "OccurrenceCount e = int (count_list calls (Tag e))" by blast
    ultimately show "in_range e" using len by (simp add: in_range_def)
  qed
  then have srt: "sorted_wrt (\<lambda>a b. OccurrenceCount b \<le> OccurrenceCount a) ?tags1"
    by (rule sorted_SortFunc)
  have l1: "length ?tags1 = length visit" by (simp add: length_SortFunc)
  have n'0: "\<not> ?n' < 0" using n by simp
  have res: "TopN ?cloud visit n = Inr (take (nat ?n') ?tags1)"
    using n'0 by (simp add: TopN_def Let_def)
  have "length (take (nat ?n') ?tags1) = min (nat n) (card (set calls))"
    using n by (auto simp: l1 card)
  moreover have "sorted_wrt (\<lambda>a b. OccurrenceCount b \<le> OccurrenceCount a) (take (nat ?n') ?tags1)"
    using srt by (rule sorted_wrt_take)
  moreover have "list_all (\<lambda>e. OccurrenceCount e = int (count_list calls (Tag e))) (take (nat ?n') ?tags1)"
  proof -
    have "set (take (nat ?n') ?tags1) \<subseteq> set ?tags0"
      using set_take_subset [of "nat ?n'" ?tags1] by (simp add: set_SortFunc)
    with cnt show ?thesis by (auto simp: list_all_iff)
  qed
  ultimately show ?thesis using res by blast
qed

lemmas tag_defs = TopN_def SortFunc_def AddTag_def New_def wrap_int_def Let_def

theorem C10_TopN_witness:
  "(0::int) \<le> 2 \<and> distinct [''go'', ''c'', ''ml'']
   \<and> set [''go'', ''c'', ''ml''] = dom (tags (foldl AddTag New [''c'', ''go'', ''ml'', ''go'', ''c'', ''go'']))
   \<and> length [''c'', ''go'', ''ml'', ''go'', ''c'', ''go''] < (2::nat) ^ 63
   \<and> TopN (foldl AddTag New [''c'', ''go'', ''ml'', ''go'', ''c'', ''go'']) [''go'', ''c'', ''ml''] 2
       = Inr [\<lparr>Tag = ''go'', OccurrenceCount = 3\<rparr>, \<lparr>Tag = ''c'', OccurrenceCount = 2\<rparr>]
   \<and> (\<exists>res. TopN (foldl AddTag New [''c'', ''go'', ''ml'', ''go'', ''c'', ''go'']) [''go'', ''c'', ''ml''] 2 = Inr res
           \<and> length res = min (nat 2) (card (set [''c'', ''go'', ''ml'', ''go'', ''c'', ''go'']))
           \<and> sorted_wrt (\<lambda>a b. OccurrenceCount b \<le> OccurrenceCount a) res
           \<and> list_all (\<lambda>e. OccurrenceCount e = int (count_list [''c'', ''go'', ''ml'', ''go'', ''c'', ''go''] (Tag e))) res)"
proof -
  have h1: "(0::int) \<le> 2" by simp
  have h2: "distinct [''go'', ''c'', ''ml'']" by simp
  have h3: "set [''go'', ''c'', ''ml''] = dom (tags (foldl AddTag New [''c'', ''go'', ''ml'', ''go'', ''c'', ''go'']))"
    by (auto simp: AddTag_def New_def)
  have h4: "length [''c'', ''go'', ''ml'', ''go'', ''c'', ''go''] < (2::nat) ^ 63" by simp
  have ev: "TopN (foldl AddTag New [''c'', ''go'', ''ml'', ''go'', ''c'', ''go'']) [''go'', ''c'', ''ml''] 2
       = Inr [\<lparr>Tag = ''go'', OccurrenceCount = 3\<rparr>, \<lparr>Tag = ''c'', OccurrenceCount = 2\<rparr>]"
    by (simp add: tag_defs)
  from C10_TopN [OF h1 h2 h3 h4] h1 h2 h3 h4 ev show ?thesis by blast
qed

end
